theory Spec2Isabelle
  imports Main
begin

section \<open>Data model\<close>

text \<open>
  A Firestore \<^verbatim>\<open>Timestamp\<close> is modelled by a natural number (a point on the clock), a
  document id by a string. The documents of the collection \<^verbatim>\<open>quantic-emails\<close> carry
  the fields the library writes: the interface \<^verbatim>\<open>Subscriber\<close> (email, subscribedAt,
  active, unsubscribeToken, optional source) and the two fields written without being
  declared there, \<^verbatim>\<open>subscribed\<close> (by \<^verbatim>\<open>addSubscriber\<close>) and \<^verbatim>\<open>unsubscribedAt\<close>
  (by the two unsubscribe functions). A field that a document may lack is an option.
  A string is the list of the bytes of its UTF-8 encoding, so a character beyond ASCII
  takes several elements of the list.
\<close>

type_synonym timestamp = nat
type_synonym doc_id = string

record subscriber =
  email :: string
  subscribedAt :: timestamp
  active :: bool
  unsubscribeToken :: string
  source :: "string option"
  subscribed :: "bool option"
  unsubscribedAt :: "timestamp option"

text \<open>
  The collection is the list of its documents, each with its id, in the order in which a
  query returns them. Document ids are the keys of the collection, so a well-formed store
  has pairwise distinct ids.
\<close>

type_synonym store = "(doc_id \<times> subscriber) list"

text \<open>
  What a call reads from outside the program: the clock (\<^verbatim>\<open>Timestamp.now()\<close>), the id
  Firestore generates if the call adds a document, and whether the store answers the
  lookup and the write of the call (a store call that does not answer throws).
\<close>

record io =
  now :: timestamp
  auto_id :: doc_id
  lookup_ok :: bool
  write_ok :: bool

text \<open>The value \<^verbatim>\<open>{ success, message }\<close> every service function returns.\<close>

record result =
  success :: bool
  message :: string

section \<open>Token generator\<close>

text \<open>
  \<^verbatim>\<open>crypto.createHash('sha256').update(s).digest('hex')\<close> is the library function
  \<open>sha256\<close>, a parameter of the model. \<^verbatim>\<open>process.env.UNSUBSCRIBE_SECRET\<close> is a string
  or undefined. \<^verbatim>\<open>a || b\<close> on strings is \<open>b\<close> when \<open>a\<close> is undefined or empty.
\<close>

definition generateUnsubscribeToken :: "(string \<Rightarrow> string) \<Rightarrow> string option \<Rightarrow> string \<Rightarrow> string" where
  "generateUnsubscribeToken sha256 UNSUBSCRIBE_SECRET email' =
     (let secret = (case UNSUBSCRIBE_SECRET of
                      None \<Rightarrow> ''development-secret-key''
                    | Some s \<Rightarrow> if s = [] then ''development-secret-key'' else s)
      in sha256 (email' @ secret))"

text \<open>
  The generator of the automation script reads \<^verbatim>\<open>CONFIG.UNSUBSCRIBE_SECRET\<close> with no
  default; \<^verbatim>\<open>email + undefined\<close> is the email followed by the text \<^verbatim>\<open>undefined\<close>.
\<close>

definition generateUnsubscribeToken_automation :: "(string \<Rightarrow> string) \<Rightarrow> string option \<Rightarrow> string \<Rightarrow> string" where
  "generateUnsubscribeToken_automation sha256 UNSUBSCRIBE_SECRET email' =
     (let secret = UNSUBSCRIBE_SECRET
      in sha256 (email' @ (case secret of None \<Rightarrow> ''undefined'' | Some s \<Rightarrow> s)))"

section \<open>Store adapter\<close>

text \<open>
  \<^verbatim>\<open>getDocs(query(collection, where('email', '==', email)))\<close>: the documents whose email
  is the one asked for, or nothing when the store does not answer.
\<close>

definition getDocs_email :: "bool \<Rightarrow> store \<Rightarrow> string \<Rightarrow> store option" where
  "getDocs_email ok st e = (if ok then Some (filter (\<lambda>(i, d). email d = e) st) else None)"


text \<open>
  \<^verbatim>\<open>addDoc\<close> stores the document under the generated id; \<^verbatim>\<open>updateDoc\<close> overwrites the
  given fields of the document with the given id and throws when there is none. The new
  document is put last: where Firestore would place it among the others in a later query
  depends on the generated id, and matters only for which of several documents with one
  email a lookup returns first.
\<close>

definition addDoc :: "bool \<Rightarrow> doc_id \<Rightarrow> subscriber \<Rightarrow> store \<Rightarrow> (doc_id \<times> store) option" where
  "addDoc ok i d st = (if ok then Some (i, st @ [(i, d)]) else None)"

fun update_fields :: "doc_id \<Rightarrow> (subscriber \<Rightarrow> subscriber) \<Rightarrow> store \<Rightarrow> store" where
  "update_fields i f [] = []"
| "update_fields i f ((j, d) # st) =
     (if j = i then (j, f d) # st else (j, d) # update_fields i f st)"

definition updateDoc :: "bool \<Rightarrow> doc_id \<Rightarrow> (subscriber \<Rightarrow> subscriber) \<Rightarrow> store \<Rightarrow> store option" where
  "updateDoc ok i f st =
     (if ok \<and> i \<in> fst ` set st then Some (update_fields i f st) else None)"

text \<open>
  \<^verbatim>\<open>getSubscriberByEmail\<close>: the first document of the query with its id, null when the
  query is empty, and null as well when the store throws (the function catches it).
\<close>

definition getSubscriberByEmail :: "bool \<Rightarrow> store \<Rightarrow> string \<Rightarrow> (doc_id \<times> subscriber) option" where
  "getSubscriberByEmail ok st e =
     (case getDocs_email ok st e of
        None \<Rightarrow> None
      | Some [] \<Rightarrow> None
      | Some (doc # _) \<Rightarrow> Some doc)"


section \<open>Subscription and unsubscription services\<close>

text \<open>
  Each service function takes the store and returns its result with the store it
  leaves. \<^verbatim>\<open>addSubscriber\<close> also returns the subscriber on success.
\<close>

definition addSubscriber ::
  "(string \<Rightarrow> string) \<Rightarrow> string option \<Rightarrow> io \<Rightarrow> store \<Rightarrow> string \<Rightarrow> string
     \<Rightarrow> (result \<times> (doc_id \<times> subscriber) option) \<times> store" where
  "addSubscriber sha256 secret w st e src =
     (case getSubscriberByEmail (lookup_ok w) st e of
        Some (i, existingSubscriber) \<Rightarrow>
          if active existingSubscriber then
            ((\<lparr>success = False, message = ''This email is already subscribed''\<rparr>, None), st)
          else
            (let updatedSubscriber = (\<lambda>d. d\<lparr>active := True, subscribed := Some True,
                     subscribedAt := now w,
                     unsubscribeToken := generateUnsubscribeToken sha256 secret e\<rparr>)
             in case updateDoc (write_ok w) i updatedSubscriber st of
                  None \<Rightarrow>
                    ((\<lparr>success = False, message = ''Failed to subscribe. Please try again.''\<rparr>, None), st)
                | Some st' \<Rightarrow>
                    ((\<lparr>success = True, message = ''Successfully resubscribed to QuanticDaily!''\<rparr>,
                      Some (i, updatedSubscriber existingSubscriber)), st'))
      | None \<Rightarrow>
          (let newSubscriber = \<lparr>email = e, subscribedAt = now w, active = True,
                   unsubscribeToken = generateUnsubscribeToken sha256 secret e,
                   source = Some src, subscribed = Some True, unsubscribedAt = None\<rparr>
           in case addDoc (write_ok w) (auto_id w) newSubscriber st of
                None \<Rightarrow>
                  ((\<lparr>success = False, message = ''Failed to subscribe. Please try again.''\<rparr>, None), st)
              | Some (docRef, st') \<Rightarrow>
                  ((\<lparr>success = True, message = ''Successfully subscribed to QuanticDaily!''\<rparr>,
                    Some (docRef, newSubscriber)), st')))"

definition unsubscribeByEmail :: "io \<Rightarrow> store \<Rightarrow> string \<Rightarrow> result \<times> store" where
  "unsubscribeByEmail w st e =
     (case getSubscriberByEmail (lookup_ok w) st e of
        None \<Rightarrow>
          (\<lparr>success = False, message = ''Email address not found in our subscriber list''\<rparr>, st)
      | Some (i, subscriber') \<Rightarrow>
          if \<not> active subscriber' then
            (\<lparr>success = False, message = ''This email is already unsubscribed''\<rparr>, st)
          else
            (case updateDoc (write_ok w) i
                    (\<lambda>d. d\<lparr>active := False, unsubscribedAt := Some (now w)\<rparr>) st of
               None \<Rightarrow>
                 (\<lparr>success = False, message = ''Failed to unsubscribe. Please try again.''\<rparr>, st)
             | Some st' \<Rightarrow>
                 (\<lparr>success = True, message = ''Successfully unsubscribed from QuanticDaily!''\<rparr>, st')))"

definition unsubscribeByToken ::
  "(string \<Rightarrow> string) \<Rightarrow> string option \<Rightarrow> io \<Rightarrow> store \<Rightarrow> string \<Rightarrow> string \<Rightarrow> result \<times> store" where
  "unsubscribeByToken sha256 secret w st e token =
     (let expectedToken = generateUnsubscribeToken sha256 secret e in
      if token \<noteq> expectedToken then
        (\<lparr>success = False, message = ''Invalid unsubscribe token''\<rparr>, st)
      else
        (case getSubscriberByEmail (lookup_ok w) st e of
           None \<Rightarrow>
             (\<lparr>success = False, message = ''Email address not found in our subscriber list''\<rparr>, st)
         | Some (i, subscriber') \<Rightarrow>
             if \<not> active subscriber' then
               (\<lparr>success = True, message = ''This email is already unsubscribed''\<rparr>, st)
             else
               (case updateDoc (write_ok w) i
                       (\<lambda>d. d\<lparr>active := False, unsubscribedAt := Some (now w)\<rparr>) st of
                  None \<Rightarrow>
                    (\<lparr>success = False, message = ''Failed to unsubscribe. Please try again.''\<rparr>, st)
                | Some st' \<Rightarrow>
                    (\<lparr>success = True, message = ''Successfully unsubscribed from QuanticDaily!''\<rparr>, st'))))"

section \<open>HTTP boundary\<close>

text \<open>
  A response is a status code and a JSON body. \<^verbatim>\<open>s.includes(t)\<close> holds when \<open>t\<close>
  occurs in \<open>s\<close> as a block of consecutive characters.
\<close>

datatype json =
    JStr string
  | JNum nat
  | JArr "json list"
  | JObj "(string \<times> json) list"

record response =
  status :: nat
  body :: json

fun startsWith :: "string \<Rightarrow> string \<Rightarrow> bool" where
  "startsWith s [] = True"
| "startsWith [] (c # cs) = False"
| "startsWith (x # xs) (c # cs) = (x = c \<and> startsWith xs cs)"

fun includes_str :: "string \<Rightarrow> string \<Rightarrow> bool" where
  "includes_str [] t = (t = [])"
| "includes_str (x # xs) t = (startsWith (x # xs) t \<or> includes_str xs t)"

text \<open>
  \<^verbatim>\<open>GET /api/unsubscribe?token=..&email=..\<close>. A query parameter is a string or null;
  \<^verbatim>\<open>!p\<close> holds for null and for the empty string. The service function does not throw,
  so the handler's own catch (status 500) has nothing to catch here.
\<close>

definition falsy :: "string option \<Rightarrow> bool" where
  "falsy p = (case p of None \<Rightarrow> True | Some s \<Rightarrow> s = [])"

definition GET_unsubscribe ::
  "(string \<Rightarrow> string) \<Rightarrow> string option \<Rightarrow> io \<Rightarrow> store \<Rightarrow> string option \<Rightarrow> string option
     \<Rightarrow> response \<times> store" where
  "GET_unsubscribe sha256 secret w st token email' =
     (if falsy token \<or> falsy email' then
        (\<lparr>status = 400, body = JObj [(''error'', JStr ''Missing token or email parameter'')]\<rparr>, st)
      else
        (let (result', st') = unsubscribeByToken sha256 secret w st (the email') (the token) in
         if success result' then
           (\<lparr>status = 200, body = JObj [(''message'', JStr (message result'))]\<rparr>, st')
         else
           (let status' = (if includes_str (message result') ''Invalid token'' then 403
                           else if includes_str (message result') ''not found'' then 404 else 400)
            in (\<lparr>status = status', body = JObj [(''error'', JStr (message result'))]\<rparr>, st'))))"


text \<open>
  \<^verbatim>\<open>/^[^\s@]+@[^\s@]+\.[^\s@]+$/.test(email)\<close>. The class \<^verbatim>\<open>\s\<close> of JavaScript is the
  white space and the line terminators: U+0009 to U+000D, U+0020, U+00A0, U+1680, U+2000
  to U+200A, U+2028, U+2029, U+202F, U+205F, U+3000 and U+FEFF, listed here by their
  UTF-8 encodings. In UTF-8 the encoding of a character occurs in a string only where
  that character stands, and the at sign and the dot are single bytes that occur in no
  other encoding. The regular expression matches a string exactly when the string has
  no white space and a single at sign, the at sign is not its first character, and what
  follows the at sign has a dot that is neither its first nor its last character.
\<close>

definition whitespace :: "string list" where
  "whitespace =
     [[CHR 0x09], [CHR 0x0A], [CHR 0x0B], [CHR 0x0C], [CHR 0x0D], [CHR 0x20],
      [CHR 0xC2, CHR 0xA0],
      [CHR 0xE1, CHR 0x9A, CHR 0x80],
      [CHR 0xE2, CHR 0x80, CHR 0x80], [CHR 0xE2, CHR 0x80, CHR 0x81],
      [CHR 0xE2, CHR 0x80, CHR 0x82], [CHR 0xE2, CHR 0x80, CHR 0x83],
      [CHR 0xE2, CHR 0x80, CHR 0x84], [CHR 0xE2, CHR 0x80, CHR 0x85],
      [CHR 0xE2, CHR 0x80, CHR 0x86], [CHR 0xE2, CHR 0x80, CHR 0x87],
      [CHR 0xE2, CHR 0x80, CHR 0x88], [CHR 0xE2, CHR 0x80, CHR 0x89],
      [CHR 0xE2, CHR 0x80, CHR 0x8A],
      [CHR 0xE2, CHR 0x80, CHR 0xA8], [CHR 0xE2, CHR 0x80, CHR 0xA9],
      [CHR 0xE2, CHR 0x80, CHR 0xAF],
      [CHR 0xE2, CHR 0x81, CHR 0x9F],
      [CHR 0xE3, CHR 0x80, CHR 0x80],
      [CHR 0xEF, CHR 0xBB, CHR 0xBF]]"

definition has_whitespace :: "string \<Rightarrow> bool" where
  "has_whitespace s = list_ex (includes_str s) whitespace"

definition emailRegex_test :: "string \<Rightarrow> bool" where
  "emailRegex_test s =
     (\<not> has_whitespace s \<and>
      takeWhile (\<lambda>c. c \<noteq> CHR ''@'') s \<noteq> [] \<and>
      (case dropWhile (\<lambda>c. c \<noteq> CHR ''@'') s of
         [] \<Rightarrow> False
       | c # domain \<Rightarrow> CHR ''@'' \<notin> set domain \<and> CHR ''.'' \<in> set (butlast (tl domain))))"




text \<open>
  The shape of the answers of the three mutating endpoints: a JSON object with the single
  field \<^verbatim>\<open>message\<close> and status 200, or with the single field \<^verbatim>\<open>error\<close> and a status
  from 400 on.
\<close>

definition message_or_error :: "response \<Rightarrow> bool" where
  "message_or_error r =
     (case body r of
        JObj [(field, JStr text')] \<Rightarrow>
          (field = ''message'' \<and> status r = 200) \<or> (field = ''error'' \<and> 400 \<le> status r)
      | _ \<Rightarrow> False)"

section \<open>Sequences of calls\<close>

text \<open>
  Two stores that hold the same documents under the same ids in the same order, but for
  the value of the stored \<^verbatim>\<open>unsubscribeToken\<close> field.
\<close>

definition differ_only_in_token :: "store \<Rightarrow> store \<Rightarrow> bool" where
  "differ_only_in_token st st' =
     list_all2 (\<lambda>(i, d) (j, d'). j = i \<and> d' = d\<lparr>unsubscribeToken := unsubscribeToken d'\<rparr>) st st'"

text \<open>
  A history of the collection: the three mutating operations called one after the other,
  starting from the empty collection. Beside the store the run keeps the time of the last
  call and, for each document id, the time of the last call of \<^verbatim>\<open>addSubscriber\<close> that
  succeeded on it, that is, the time of its last transition to active; this last map is
  a history variable, no part of the program's state. A run is admissible when the clock
  does not go backwards between calls and an id generated for a new document is new.
\<close>

datatype call =
    AddSubscriber io string string
  | UnsubscribeByEmail io string
  | UnsubscribeByToken io string string

type_synonym history = "timestamp \<times> (doc_id \<rightharpoonup> timestamp) \<times> store"

fun step :: "(string \<Rightarrow> string) \<Rightarrow> string option \<Rightarrow> history \<Rightarrow> call \<Rightarrow> history" where
  "step sha256 secret (t, activated, st) (AddSubscriber w e src) =
     (case addSubscriber sha256 secret w st e src of
        ((_, None), st') \<Rightarrow> (now w, activated, st')
      | ((_, Some (i, _)), st') \<Rightarrow> (now w, activated(i \<mapsto> now w), st'))"
| "step sha256 secret (t, activated, st) (UnsubscribeByEmail w e) =
     (now w, activated, snd (unsubscribeByEmail w st e))"
| "step sha256 secret (t, activated, st) (UnsubscribeByToken w e token) =
     (now w, activated, snd (unsubscribeByToken sha256 secret w st e token))"

fun admissible :: "history \<Rightarrow> call \<Rightarrow> bool" where
  "admissible (t, activated, st) (AddSubscriber w e src) =
     (t \<le> now w \<and> auto_id w \<notin> fst ` set st)"
| "admissible (t, activated, st) (UnsubscribeByEmail w e) = (t \<le> now w)"
| "admissible (t, activated, st) (UnsubscribeByToken w e token) = (t \<le> now w)"

fun run :: "(string \<Rightarrow> string) \<Rightarrow> string option \<Rightarrow> history \<Rightarrow> call list \<Rightarrow> history option" where
  "run sha256 secret h [] = Some h"
| "run sha256 secret h (c # cs) =
     (if admissible h c then run sha256 secret (step sha256 secret h c) cs else None)"

text \<open>
  The invariant of a document at time \<open>t\<close>, given the time of its last transition to
  active: no timestamp lies in the future; an active document has the \<^verbatim>\<open>subscribedAt\<close>
  of that transition, and any \<^verbatim>\<open>unsubscribedAt\<close> it still carries is not later; an
  inactive document carries an \<^verbatim>\<open>unsubscribedAt\<close> at or after its \<^verbatim>\<open>subscribedAt\<close>.
\<close>

definition subscriber_invar :: "timestamp \<Rightarrow> timestamp option \<Rightarrow> subscriber \<Rightarrow> bool" where
  "subscriber_invar t last_activation d =
     (subscribedAt d \<le> t \<and>
      (if active d then
         last_activation = Some (subscribedAt d) \<and>
         (case unsubscribedAt d of None \<Rightarrow> True | Some u \<Rightarrow> u \<le> subscribedAt d)
       else
         (case unsubscribedAt d of None \<Rightarrow> False | Some u \<Rightarrow> subscribedAt d \<le> u \<and> u \<le> t)))"

fun history_invar :: "history \<Rightarrow> bool" where
  "history_invar (t, activated, st) =
     (distinct (map fst st) \<and> list_all (\<lambda>(i, d). subscriber_invar t (activated i) d) st)"

section \<open>Lookup and update of a document\<close>

lemma getSubscriberByEmail_None_iff:
  "getSubscriberByEmail True st e = None \<longleftrightarrow> (\<forall>(i, d) \<in> set st. email d \<noteq> e)"
  by (induction st) (auto simp: getSubscriberByEmail_def getDocs_email_def split: list.splits)

lemma getSubscriberByEmail_unavailable: "getSubscriberByEmail False st e = None"
  by (simp add: getSubscriberByEmail_def getDocs_email_def)

lemma getSubscriberByEmail_first:
  "(\<forall>(j, d') \<in> set pre. email d' \<noteq> e) \<Longrightarrow> email d = e
     \<Longrightarrow> getSubscriberByEmail True (pre @ (i, d) # post) e = Some (i, d)"
  by (induction pre) (auto simp: getSubscriberByEmail_def getDocs_email_def split: list.splits)

lemma getSubscriberByEmail_SomeD:
  "getSubscriberByEmail ok st e = Some (i, d)
     \<Longrightarrow> ok \<and> email d = e \<and> (\<exists>pre post. st = pre @ (i, d) # post \<and> (\<forall>(j, d') \<in> set pre. email d' \<noteq> e))"
proof (induction st)
  case Nil
  then show ?case by (simp add: getSubscriberByEmail_def getDocs_email_def split: if_splits)
next
  case (Cons p st)
  obtain j d' where p: "p = (j, d')" by (cases p)
  from Cons.prems have ok: ok
    by (auto simp: getSubscriberByEmail_def getDocs_email_def split: if_splits)
  show ?case
  proof (cases "email d' = e")
    case True
    with Cons.prems p ok have "(i, d) = (j, d')"
      by (simp add: getSubscriberByEmail_def getDocs_email_def)
    with True p ok show ?thesis by (intro conjI exI[of _ "[]"] exI[of _ st]) auto
  next
    case False
    with Cons.prems p ok have "getSubscriberByEmail ok st e = Some (i, d)"
      by (simp add: getSubscriberByEmail_def getDocs_email_def)
    from Cons.IH[OF this] obtain pre post where
      e: "email d = e" and st: "st = pre @ (i, d) # post" and pre: "\<forall>(j, d') \<in> set pre. email d' \<noteq> e"
      by blast
    from st pre False p have "p # st = (p # pre) @ (i, d) # post \<and> (\<forall>(j, d') \<in> set (p # pre). email d' \<noteq> e)"
      by auto
    with ok e show ?thesis by blast
  qed
qed

lemma update_fields_split:
  "i \<notin> fst ` set pre \<Longrightarrow> update_fields i f (pre @ (i, d) # post) = pre @ (i, f d) # post"
  by (induction pre) auto

lemma update_fields_keys: "map fst (update_fields i f st) = map fst st"
  by (induction st) auto

lemma updateDoc_split:
  "distinct (map fst (pre @ (i, d) # post))
     \<Longrightarrow> updateDoc True i f (pre @ (i, d) # post) = Some (pre @ (i, f d) # post)"
  by (simp add: updateDoc_def update_fields_split)

section \<open>The branches of the service functions\<close>

lemma addSubscriber_insert:
  assumes "getSubscriberByEmail (lookup_ok w) st e = None" and "write_ok w"
  shows "addSubscriber H sec w st e src =
     ((\<lparr>success = True, message = ''Successfully subscribed to QuanticDaily!''\<rparr>,
       Some (auto_id w, \<lparr>email = e, subscribedAt = now w, active = True,
              unsubscribeToken = generateUnsubscribeToken H sec e,
              source = Some src, subscribed = Some True, unsubscribedAt = None\<rparr>)),
      st @ [(auto_id w, \<lparr>email = e, subscribedAt = now w, active = True,
              unsubscribeToken = generateUnsubscribeToken H sec e,
              source = Some src, subscribed = Some True, unsubscribedAt = None\<rparr>)])"
  using assms by (simp add: addSubscriber_def addDoc_def Let_def)

lemma addSubscriber_active:
  assumes "getSubscriberByEmail (lookup_ok w) st e = Some (i, d)" and "active d"
  shows "addSubscriber H sec w st e src =
     ((\<lparr>success = False, message = ''This email is already subscribed''\<rparr>, None), st)"
  using assms by (simp add: addSubscriber_def Let_def)

lemma addSubscriber_reactivate:
  assumes "getSubscriberByEmail (lookup_ok w) st e = Some (i, d)" and "\<not> active d"
    and "updateDoc (write_ok w) i (\<lambda>d. d\<lparr>active := True, subscribed := Some True,
            subscribedAt := now w, unsubscribeToken := generateUnsubscribeToken H sec e\<rparr>) st = Some st'"
  shows "addSubscriber H sec w st e src =
     ((\<lparr>success = True, message = ''Successfully resubscribed to QuanticDaily!''\<rparr>,
       Some (i, d\<lparr>active := True, subscribed := Some True, subscribedAt := now w,
                  unsubscribeToken := generateUnsubscribeToken H sec e\<rparr>)), st')"
  using assms by (simp add: addSubscriber_def Let_def)

lemma unsubscribeByEmail_absent:
  assumes "getSubscriberByEmail (lookup_ok w) st e = None"
  shows "unsubscribeByEmail w st e =
     (\<lparr>success = False, message = ''Email address not found in our subscriber list''\<rparr>, st)"
  using assms by (simp add: unsubscribeByEmail_def)

lemma unsubscribeByEmail_inactive:
  assumes "getSubscriberByEmail (lookup_ok w) st e = Some (i, d)" and "\<not> active d"
  shows "unsubscribeByEmail w st e =
     (\<lparr>success = False, message = ''This email is already unsubscribed''\<rparr>, st)"
  using assms by (simp add: unsubscribeByEmail_def)

lemma unsubscribeByEmail_deactivate:
  assumes "getSubscriberByEmail (lookup_ok w) st e = Some (i, d)" and "active d"
    and "updateDoc (write_ok w) i (\<lambda>d. d\<lparr>active := False, unsubscribedAt := Some (now w)\<rparr>) st = Some st'"
  shows "unsubscribeByEmail w st e =
     (\<lparr>success = True, message = ''Successfully unsubscribed from QuanticDaily!''\<rparr>, st')"
  using assms by (simp add: unsubscribeByEmail_def)

lemma unsubscribeByToken_invalid:
  assumes "t \<noteq> generateUnsubscribeToken H sec e"
  shows "unsubscribeByToken H sec w st e t =
     (\<lparr>success = False, message = ''Invalid unsubscribe token''\<rparr>, st)"
  using assms by (simp add: unsubscribeByToken_def)

lemma unsubscribeByToken_absent:
  assumes "getSubscriberByEmail (lookup_ok w) st e = None"
  shows "unsubscribeByToken H sec w st e (generateUnsubscribeToken H sec e) =
     (\<lparr>success = False, message = ''Email address not found in our subscriber list''\<rparr>, st)"
  using assms by (simp add: unsubscribeByToken_def)

lemma unsubscribeByToken_inactive:
  assumes "getSubscriberByEmail (lookup_ok w) st e = Some (i, d)" and "\<not> active d"
  shows "unsubscribeByToken H sec w st e (generateUnsubscribeToken H sec e) =
     (\<lparr>success = True, message = ''This email is already unsubscribed''\<rparr>, st)"
  using assms by (simp add: unsubscribeByToken_def)

lemma unsubscribeByToken_active:
  assumes "getSubscriberByEmail (lookup_ok w) st e = Some (i, d)" and "active d"
  shows "unsubscribeByToken H sec w st e (generateUnsubscribeToken H sec e) =
     (case updateDoc (write_ok w) i (\<lambda>d. d\<lparr>active := False, unsubscribedAt := Some (now w)\<rparr>) st of
        None \<Rightarrow> (\<lparr>success = False, message = ''Failed to unsubscribe. Please try again.''\<rparr>, st)
      | Some st' \<Rightarrow> (\<lparr>success = True, message = ''Successfully unsubscribed from QuanticDaily!''\<rparr>, st'))"
  using assms by (simp add: unsubscribeByToken_def)

lemma getSubscriberByEmail_key:
  "getSubscriberByEmail ok st e = Some (i, d) \<Longrightarrow> i \<in> fst ` set st"
  by (auto dest!: getSubscriberByEmail_SomeD)

section \<open>Token check of \<^verbatim>\<open>unsubscribeByToken\<close>\<close>

text \<open>
  C1, as the code has it. A token other than the recomputed one gives the failure
  \<^verbatim>\<open>Invalid unsubscribe token\<close> and leaves the store as it is, whatever the store holds
  and whether or not it answers. The call succeeds exactly when the token is the
  recomputed one and the lookup then finds a document for the email (and, when that
  document is active, the write that deactivates it goes through): a valid token alone
  is not enough. With the recomputed token and no document found for the email, the
  failure is \<^verbatim>\<open>Email address not found in our subscriber list\<close>, the store unchanged.
\<close>

theorem unsubscribeByToken_success_iff:
  "(t \<noteq> generateUnsubscribeToken H sec e \<longrightarrow>
      unsubscribeByToken H sec w st e t =
        (\<lparr>success = False, message = ''Invalid unsubscribe token''\<rparr>, st))
   \<and> (success (fst (unsubscribeByToken H sec w st e t)) \<longleftrightarrow>
        t = generateUnsubscribeToken H sec e
        \<and> (\<exists>i d. getSubscriberByEmail (lookup_ok w) st e = Some (i, d) \<and> (active d \<longrightarrow> write_ok w)))
   \<and> (t = generateUnsubscribeToken H sec e \<and> getSubscriberByEmail (lookup_ok w) st e = None \<longrightarrow>
        unsubscribeByToken H sec w st e t =
          (\<lparr>success = False, message = ''Email address not found in our subscriber list''\<rparr>, st))"
proof (cases "t = generateUnsubscribeToken H sec e")
  case False
  then show ?thesis by (simp add: unsubscribeByToken_invalid)
next
  case valid: True
  show ?thesis
  proof (cases "getSubscriberByEmail (lookup_ok w) st e")
    case None
    with valid show ?thesis by (simp add: unsubscribeByToken_absent)
  next
    case (Some p)
    obtain i d where p: "p = (i, d)" by (cases p)
    with Some have found: "getSubscriberByEmail (lookup_ok w) st e = Some (i, d)" by simp
    show ?thesis
    proof (cases "active d")
      case False
      with valid found show ?thesis by (simp add: unsubscribeByToken_inactive)
    next
      case True
      from found have "i \<in> fst ` set st" by (rule getSubscriberByEmail_key)
      with valid found True show ?thesis
        by (simp add: unsubscribeByToken_active updateDoc_def)
    qed
  qed
qed

theorem unsubscribeByToken_success_iff_witness:
  "''wrong'' \<noteq> generateUnsubscribeToken id (Some ''s3cret'') ''a@x.com''
   \<and> unsubscribeByToken id (Some ''s3cret'')
         \<lparr>now = 5, auto_id = ''d9'', lookup_ok = True, write_ok = True\<rparr>
         [(''d1'', \<lparr>email = ''a@x.com'', subscribedAt = 1, active = True,
                   unsubscribeToken = ''a@x.coms3cret'', source = Some ''website'',
                   subscribed = Some True, unsubscribedAt = None\<rparr>)]
         ''a@x.com'' ''wrong''
       = (\<lparr>success = False, message = ''Invalid unsubscribe token''\<rparr>,
          [(''d1'', \<lparr>email = ''a@x.com'', subscribedAt = 1, active = True,
                   unsubscribeToken = ''a@x.coms3cret'', source = Some ''website'',
                   subscribed = Some True, unsubscribedAt = None\<rparr>)])
   \<and> success (fst (unsubscribeByToken id (Some ''s3cret'')
         \<lparr>now = 5, auto_id = ''d9'', lookup_ok = True, write_ok = True\<rparr>
         [(''d1'', \<lparr>email = ''a@x.com'', subscribedAt = 1, active = True,
                   unsubscribeToken = ''a@x.coms3cret'', source = Some ''website'',
                   subscribed = Some True, unsubscribedAt = None\<rparr>)]
         ''a@x.com'' ''a@x.coms3cret''))
   \<and> unsubscribeByToken id (Some ''s3cret'')
         \<lparr>now = 5, auto_id = ''d9'', lookup_ok = True, write_ok = True\<rparr> []
         ''a@x.com'' ''a@x.coms3cret''
       = (\<lparr>success = False, message = ''Email address not found in our subscriber list''\<rparr>, [])"
proof -
  let ?w = "\<lparr>now = 5, auto_id = ''d9'', lookup_ok = True, write_ok = True\<rparr>"
  let ?st = "[(''d1'', \<lparr>email = ''a@x.com'', subscribedAt = 1, active = True,
                   unsubscribeToken = ''a@x.coms3cret'', source = Some ''website'',
                   subscribed = Some True, unsubscribedAt = None\<rparr>)]"
  have wrong: "''wrong'' \<noteq> generateUnsubscribeToken id (Some ''s3cret'') ''a@x.com''"
    by (simp add: generateUnsubscribeToken_def)
  have right: "''a@x.coms3cret'' = generateUnsubscribeToken id (Some ''s3cret'') ''a@x.com''"
    by (simp add: generateUnsubscribeToken_def)
  have found: "getSubscriberByEmail (lookup_ok ?w) ?st ''a@x.com'' = Some (hd ?st)"
    by (simp add: getSubscriberByEmail_def getDocs_email_def)
  from wrong right found
    unsubscribeByToken_success_iff[of "''wrong''" id "Some ''s3cret''" "''a@x.com''" ?w ?st]
    unsubscribeByToken_success_iff[of "''a@x.coms3cret''" id "Some ''s3cret''" "''a@x.com''" ?w ?st]
  have some: "''wrong'' \<noteq> generateUnsubscribeToken id (Some ''s3cret'') ''a@x.com''
   \<and> unsubscribeByToken id (Some ''s3cret'') ?w ?st ''a@x.com'' ''wrong''
       = (\<lparr>success = False, message = ''Invalid unsubscribe token''\<rparr>, ?st)
   \<and> success (fst (unsubscribeByToken id (Some ''s3cret'') ?w ?st ''a@x.com'' ''a@x.coms3cret''))"
    by simp
  have none: "getSubscriberByEmail (lookup_ok ?w) [] ''a@x.com'' = None"
    by (simp add: getSubscriberByEmail_def getDocs_email_def)
  from right none
    unsubscribeByToken_success_iff[of "''a@x.coms3cret''" id "Some ''s3cret''" "''a@x.com''" ?w "[]"]
  have "unsubscribeByToken id (Some ''s3cret'') ?w [] ''a@x.com'' ''a@x.coms3cret''
       = (\<lparr>success = False, message = ''Email address not found in our subscriber list''\<rparr>, [])"
    by simp
  with some show ?thesis by simp
qed

text \<open>
  C1 as stated fails: on the empty store the recomputed token itself is refused (the
  email is not found). The digest does not matter for this outcome; it is the identity
  here.
\<close>

theorem unsubscribeByToken_unknown_email_counterexample:
  "\<not> success (fst (unsubscribeByToken id (Some ''s3cret'')
         \<lparr>now = 5, auto_id = ''d9'', lookup_ok = True, write_ok = True\<rparr> []
         ''a@x.com'' (generateUnsubscribeToken id (Some ''s3cret'') ''a@x.com'')))"
  by (simp add: unsubscribeByToken_def getSubscriberByEmail_def getDocs_email_def)

section \<open>Subscribing\<close>

text \<open>
  C2. With the store answering both calls: when no document has the email,
  \<^verbatim>\<open>addSubscriber\<close> appends one new active document with the current time and the
  computed token; when the first document with the email is active, it fails with
  \<^verbatim>\<open>This email is already subscribed\<close> and the store is unchanged; when it is
  inactive, that document is updated where it stands (active, subscribed, subscribedAt
  and unsubscribeToken), and no document is added.
\<close>

theorem addSubscriber_three_way:
  assumes "lookup_ok w" and "write_ok w" and "distinct (map fst st)"
  shows
    "((\<forall>(j, d') \<in> set st. email d' \<noteq> e) \<longrightarrow>
        addSubscriber H sec w st e src =
          ((\<lparr>success = True, message = ''Successfully subscribed to QuanticDaily!''\<rparr>,
            Some (auto_id w, \<lparr>email = e, subscribedAt = now w, active = True,
                   unsubscribeToken = generateUnsubscribeToken H sec e,
                   source = Some src, subscribed = Some True, unsubscribedAt = None\<rparr>)),
           st @ [(auto_id w, \<lparr>email = e, subscribedAt = now w, active = True,
                   unsubscribeToken = generateUnsubscribeToken H sec e,
                   source = Some src, subscribed = Some True, unsubscribedAt = None\<rparr>)]))
   \<and> (st = pre @ (i, d) # post \<and> (\<forall>(j, d') \<in> set pre. email d' \<noteq> e) \<and> email d = e \<longrightarrow>
        (if active d then
           addSubscriber H sec w st e src =
             ((\<lparr>success = False, message = ''This email is already subscribed''\<rparr>, None), st)
         else
           addSubscriber H sec w st e src =
             ((\<lparr>success = True, message = ''Successfully resubscribed to QuanticDaily!''\<rparr>,
               Some (i, d\<lparr>active := True, subscribed := Some True, subscribedAt := now w,
                          unsubscribeToken := generateUnsubscribeToken H sec e\<rparr>)),
              pre @ (i, d\<lparr>active := True, subscribed := Some True, subscribedAt := now w,
                          unsubscribeToken := generateUnsubscribeToken H sec e\<rparr>) # post)))"
  (is "(?absent \<longrightarrow> ?insert) \<and> (?present \<longrightarrow> ?update)")
proof (intro conjI impI)
  assume ?absent
  with assms(1) have none: "getSubscriberByEmail (lookup_ok w) st e = None"
    by (simp add: getSubscriberByEmail_None_iff)
  show ?insert by (rule addSubscriber_insert[OF none assms(2)])
next
  let ?f = "\<lambda>d. d\<lparr>active := True, subscribed := Some True, subscribedAt := now w,
                 unsubscribeToken := generateUnsubscribeToken H sec e\<rparr>"
  assume h: ?present
  with assms(1) have found: "getSubscriberByEmail (lookup_ok w) st e = Some (i, d)"
    by (simp add: getSubscriberByEmail_first)
  have upd: "updateDoc (write_ok w) i ?f st = Some (pre @ (i, ?f d) # post)"
    using h assms(2,3) updateDoc_split[of pre i d post ?f] by simp
  show ?update
  proof (cases "active d")
    case True
    with found show ?thesis by (simp add: addSubscriber_active)
  next
    case False
    with addSubscriber_reactivate[OF found False upd] show ?thesis by simp
  qed
qed

theorem addSubscriber_three_way_witness:
  "addSubscriber id (Some ''k'') \<lparr>now = 5, auto_id = ''d2'', lookup_ok = True, write_ok = True\<rparr>
       [] ''a@x.com'' ''website''
     = ((\<lparr>success = True, message = ''Successfully subscribed to QuanticDaily!''\<rparr>,
         Some (''d2'', \<lparr>email = ''a@x.com'', subscribedAt = 5, active = True,
                 unsubscribeToken = ''a@x.comk'', source = Some ''website'',
                 subscribed = Some True, unsubscribedAt = None\<rparr>)),
        [(''d2'', \<lparr>email = ''a@x.com'', subscribedAt = 5, active = True,
                 unsubscribeToken = ''a@x.comk'', source = Some ''website'',
                 subscribed = Some True, unsubscribedAt = None\<rparr>)])
   \<and> addSubscriber id (Some ''k'') \<lparr>now = 5, auto_id = ''d2'', lookup_ok = True, write_ok = True\<rparr>
       [(''d1'', \<lparr>email = ''a@x.com'', subscribedAt = 1, active = True,
                 unsubscribeToken = ''old'', source = None,
                 subscribed = None, unsubscribedAt = None\<rparr>)] ''a@x.com'' ''website''
     = ((\<lparr>success = False, message = ''This email is already subscribed''\<rparr>, None),
        [(''d1'', \<lparr>email = ''a@x.com'', subscribedAt = 1, active = True,
                 unsubscribeToken = ''old'', source = None,
                 subscribed = None, unsubscribedAt = None\<rparr>)])
   \<and> addSubscriber id (Some ''k'') \<lparr>now = 5, auto_id = ''d2'', lookup_ok = True, write_ok = True\<rparr>
       [(''d1'', \<lparr>email = ''a@x.com'', subscribedAt = 1, active = False,
                 unsubscribeToken = ''old'', source = None,
                 subscribed = None, unsubscribedAt = Some 2\<rparr>)] ''a@x.com'' ''website''
     = ((\<lparr>success = True, message = ''Successfully resubscribed to QuanticDaily!''\<rparr>,
         Some (''d1'', \<lparr>email = ''a@x.com'', subscribedAt = 5, active = True,
                 unsubscribeToken = ''a@x.comk'', source = None,
                 subscribed = Some True, unsubscribedAt = Some 2\<rparr>)),
        [(''d1'', \<lparr>email = ''a@x.com'', subscribedAt = 5, active = True,
                 unsubscribeToken = ''a@x.comk'', source = None,
                 subscribed = Some True, unsubscribedAt = Some 2\<rparr>)])"
proof -
  let ?w = "\<lparr>now = 5, auto_id = ''d2'', lookup_ok = True, write_ok = True\<rparr>"
  let ?on = "\<lparr>email = ''a@x.com'', subscribedAt = 1, active = True,
                 unsubscribeToken = ''old'', source = None,
                 subscribed = None, unsubscribedAt = None\<rparr>"
  let ?off = "\<lparr>email = ''a@x.com'', subscribedAt = 1, active = False,
                 unsubscribeToken = ''old'', source = None,
                 subscribed = None, unsubscribedAt = Some 2\<rparr>"
  have tok: "generateUnsubscribeToken id (Some ''k'') ''a@x.com'' = ''a@x.comk''"
    by (simp add: generateUnsubscribeToken_def)
  have w: "lookup_ok ?w" "write_ok ?w" by simp_all
  have new: "distinct (map fst ([] :: store))" by simp
  have one: "distinct (map fst [(''d1'', ?on)])" "distinct (map fst [(''d1'', ?off)])" by simp_all
  from addSubscriber_three_way[where w = ?w and st = "[]" and e = "''a@x.com''" and H = id
        and sec = "Some ''k''" and src = "''website''", OF w new, THEN conjunct1]
    addSubscriber_three_way[where w = ?w and st = "[(''d1'', ?on)]" and e = "''a@x.com''" and H = id
        and sec = "Some ''k''" and src = "''website''" and pre = "[]" and i = "''d1''" and d = ?on
        and post = "[]", OF w one(1), THEN conjunct2]
    addSubscriber_three_way[where w = ?w and st = "[(''d1'', ?off)]" and e = "''a@x.com''" and H = id
        and sec = "Some ''k''" and src = "''website''" and pre = "[]" and i = "''d1''" and d = ?off
        and post = "[]", OF w one(2), THEN conjunct2]
  show ?thesis by (simp add: tok)
qed

text \<open>
  C10. Reactivation writes four fields only: the document keeps its old
  \<^verbatim>\<open>unsubscribedAt\<close>, \<^verbatim>\<open>source\<close> and \<^verbatim>\<open>email\<close>, so an active document may carry an
  \<^verbatim>\<open>unsubscribedAt\<close> earlier than its new \<^verbatim>\<open>subscribedAt\<close>.
\<close>

theorem reactivation_frame:
  assumes "lookup_ok w" and "write_ok w" and "distinct (map fst st)"
    and "st = pre @ (i, d) # post" and "\<forall>(j, d') \<in> set pre. email d' \<noteq> e"
    and "email d = e" and "\<not> active d"
  shows "\<exists>d'. addSubscriber H sec w st e src =
            ((\<lparr>success = True, message = ''Successfully resubscribed to QuanticDaily!''\<rparr>,
              Some (i, d')), pre @ (i, d') # post)
          \<and> active d' \<and> subscribed d' = Some True \<and> subscribedAt d' = now w
          \<and> unsubscribeToken d' = generateUnsubscribeToken H sec e
          \<and> unsubscribedAt d' = unsubscribedAt d \<and> source d' = source d \<and> email d' = email d
          \<and> (\<forall>u. unsubscribedAt d = Some u \<and> u < now w \<longrightarrow>
                 unsubscribedAt d' = Some u \<and> u < subscribedAt d')"
proof -
  let ?f = "\<lambda>d. d\<lparr>active := True, subscribed := Some True, subscribedAt := now w,
                 unsubscribeToken := generateUnsubscribeToken H sec e\<rparr>"
  from assms(1,4,5,6) have found: "getSubscriberByEmail (lookup_ok w) st e = Some (i, d)"
    by (simp add: getSubscriberByEmail_first)
  have upd: "updateDoc (write_ok w) i ?f st = Some (pre @ (i, ?f d) # post)"
    using assms(2,3,4) updateDoc_split[of pre i d post ?f] by simp
  from addSubscriber_reactivate[OF found assms(7) upd]
  show ?thesis by (intro exI[of _ "?f d"]) simp
qed

theorem reactivation_frame_witness:
  "addSubscriber id (Some ''k'') \<lparr>now = 5, auto_id = ''d2'', lookup_ok = True, write_ok = True\<rparr>
       [(''d1'', \<lparr>email = ''a@x.com'', subscribedAt = 1, active = False,
                 unsubscribeToken = ''old'', source = Some ''import'',
                 subscribed = None, unsubscribedAt = Some 2\<rparr>)] ''a@x.com'' ''website''
     = ((\<lparr>success = True, message = ''Successfully resubscribed to QuanticDaily!''\<rparr>,
         Some (''d1'', \<lparr>email = ''a@x.com'', subscribedAt = 5, active = True,
                 unsubscribeToken = ''a@x.comk'', source = Some ''import'',
                 subscribed = Some True, unsubscribedAt = Some 2\<rparr>)),
        [(''d1'', \<lparr>email = ''a@x.com'', subscribedAt = 5, active = True,
                 unsubscribeToken = ''a@x.comk'', source = Some ''import'',
                 subscribed = Some True, unsubscribedAt = Some 2\<rparr>)])"
proof -
  let ?w = "\<lparr>now = 5, auto_id = ''d2'', lookup_ok = True, write_ok = True\<rparr>"
  let ?off = "\<lparr>email = ''a@x.com'', subscribedAt = 1, active = False,
                 unsubscribeToken = ''old'', source = Some ''import'',
                 subscribed = None, unsubscribedAt = Some 2\<rparr>"
  have tok: "generateUnsubscribeToken id (Some ''k'') ''a@x.com'' = ''a@x.comk''"
    by (simp add: generateUnsubscribeToken_def)
  from reactivation_frame[where w = ?w and st = "[(''d1'', ?off)]" and pre = "[]"
        and i = "''d1''" and d = ?off and post = "[]" and e = "''a@x.com''" and H = id
        and sec = "Some ''k''" and src = "''website''"]
  obtain d' where
    r: "addSubscriber id (Some ''k'') ?w [(''d1'', ?off)] ''a@x.com'' ''website'' =
          ((\<lparr>success = True, message = ''Successfully resubscribed to QuanticDaily!''\<rparr>,
            Some (''d1'', d')), [(''d1'', d')])"
    and f: "active d'" "subscribed d' = Some True" "subscribedAt d' = 5"
      "unsubscribeToken d' = ''a@x.comk''" "unsubscribedAt d' = Some 2"
      "source d' = Some ''import''" "email d' = ''a@x.com''"
    by (auto simp: tok)
  from f have "d' = \<lparr>email = ''a@x.com'', subscribedAt = 5, active = True,
                 unsubscribeToken = ''a@x.comk'', source = Some ''import'',
                 subscribed = Some True, unsubscribedAt = Some 2\<rparr>"
    by (cases d') simp
  with r show ?thesis by simp
qed

section \<open>Unsubscribing\<close>

text \<open>
  C3. \<^verbatim>\<open>unsubscribeByEmail\<close> fails with \<^verbatim>\<open>Email address not found\<close> when no document
  has the email and with \<^verbatim>\<open>This email is already unsubscribed\<close> when the first one is
  inactive, the store unchanged in both cases; otherwise it sets \<^verbatim>\<open>active\<close> to false
  and \<^verbatim>\<open>unsubscribedAt\<close> to the current time in that document.
\<close>

theorem unsubscribeByEmail_cases:
  "((\<forall>(j, d') \<in> set st. email d' \<noteq> e) \<longrightarrow>
      unsubscribeByEmail w st e =
        (\<lparr>success = False, message = ''Email address not found in our subscriber list''\<rparr>, st))
   \<and> (lookup_ok w \<and> st = pre @ (i, d) # post \<and> (\<forall>(j, d') \<in> set pre. email d' \<noteq> e) \<and> email d = e \<longrightarrow>
        (if \<not> active d then
           unsubscribeByEmail w st e =
             (\<lparr>success = False, message = ''This email is already unsubscribed''\<rparr>, st)
         else write_ok w \<and> distinct (map fst st) \<longrightarrow>
           unsubscribeByEmail w st e =
             (\<lparr>success = True, message = ''Successfully unsubscribed from QuanticDaily!''\<rparr>,
              pre @ (i, d\<lparr>active := False, unsubscribedAt := Some (now w)\<rparr>) # post)))"
proof -
  have absent: "unsubscribeByEmail w st e =
        (\<lparr>success = False, message = ''Email address not found in our subscriber list''\<rparr>, st)"
    if "\<forall>(j, d') \<in> set st. email d' \<noteq> e"
  proof -
    from that have "getSubscriberByEmail (lookup_ok w) st e = None"
      by (cases "lookup_ok w") (simp_all add: getSubscriberByEmail_None_iff getSubscriberByEmail_unavailable)
    then show ?thesis by (rule unsubscribeByEmail_absent)
  qed
  have present: "if \<not> active d then
           unsubscribeByEmail w st e =
             (\<lparr>success = False, message = ''This email is already unsubscribed''\<rparr>, st)
         else write_ok w \<and> distinct (map fst st) \<longrightarrow>
           unsubscribeByEmail w st e =
             (\<lparr>success = True, message = ''Successfully unsubscribed from QuanticDaily!''\<rparr>,
              pre @ (i, d\<lparr>active := False, unsubscribedAt := Some (now w)\<rparr>) # post)"
    if h: "lookup_ok w \<and> st = pre @ (i, d) # post \<and> (\<forall>(j, d') \<in> set pre. email d' \<noteq> e) \<and> email d = e"
  proof -
    from h have found: "getSubscriberByEmail (lookup_ok w) st e = Some (i, d)"
      by (simp add: getSubscriberByEmail_first)
    show ?thesis
    proof (cases "active d")
      case False
      with found show ?thesis by (simp add: unsubscribeByEmail_inactive)
    next
      case True
      have "unsubscribeByEmail w st e =
             (\<lparr>success = True, message = ''Successfully unsubscribed from QuanticDaily!''\<rparr>,
              pre @ (i, d\<lparr>active := False, unsubscribedAt := Some (now w)\<rparr>) # post)"
        if "write_ok w" and "distinct (map fst st)"
      proof (rule unsubscribeByEmail_deactivate[OF found True])
        show "updateDoc (write_ok w) i (\<lambda>d. d\<lparr>active := False, unsubscribedAt := Some (now w)\<rparr>) st
            = Some (pre @ (i, d\<lparr>active := False, unsubscribedAt := Some (now w)\<rparr>) # post)"
          using that h updateDoc_split[of pre i d post] by simp
      qed
      with True show ?thesis by simp
    qed
  qed
  from absent present show ?thesis by blast
qed

theorem unsubscribeByEmail_cases_witness:
  "unsubscribeByEmail \<lparr>now = 5, auto_id = ''d2'', lookup_ok = True, write_ok = True\<rparr> [] ''a@x.com''
     = (\<lparr>success = False, message = ''Email address not found in our subscriber list''\<rparr>, [])
   \<and> unsubscribeByEmail \<lparr>now = 5, auto_id = ''d2'', lookup_ok = True, write_ok = True\<rparr>
       [(''d1'', \<lparr>email = ''a@x.com'', subscribedAt = 1, active = False,
                 unsubscribeToken = ''old'', source = None,
                 subscribed = None, unsubscribedAt = Some 2\<rparr>)] ''a@x.com''
     = (\<lparr>success = False, message = ''This email is already unsubscribed''\<rparr>,
        [(''d1'', \<lparr>email = ''a@x.com'', subscribedAt = 1, active = False,
                 unsubscribeToken = ''old'', source = None,
                 subscribed = None, unsubscribedAt = Some 2\<rparr>)])
   \<and> unsubscribeByEmail \<lparr>now = 5, auto_id = ''d2'', lookup_ok = True, write_ok = True\<rparr>
       [(''d1'', \<lparr>email = ''a@x.com'', subscribedAt = 1, active = True,
                 unsubscribeToken = ''old'', source = None,
                 subscribed = None, unsubscribedAt = None\<rparr>)] ''a@x.com''
     = (\<lparr>success = True, message = ''Successfully unsubscribed from QuanticDaily!''\<rparr>,
        [(''d1'', \<lparr>email = ''a@x.com'', subscribedAt = 1, active = False,
                 unsubscribeToken = ''old'', source = None,
                 subscribed = None, unsubscribedAt = Some 5\<rparr>)])"
proof -
  let ?w = "\<lparr>now = 5, auto_id = ''d2'', lookup_ok = True, write_ok = True\<rparr>"
  let ?on = "\<lparr>email = ''a@x.com'', subscribedAt = 1, active = True,
                 unsubscribeToken = ''old'', source = None,
                 subscribed = None, unsubscribedAt = None\<rparr>"
  let ?off = "\<lparr>email = ''a@x.com'', subscribedAt = 1, active = False,
                 unsubscribeToken = ''old'', source = None,
                 subscribed = None, unsubscribedAt = Some 2\<rparr>"
  from unsubscribeByEmail_cases[where w = ?w and st = "[]" and e = "''a@x.com''", THEN conjunct1]
    unsubscribeByEmail_cases[where w = ?w and st = "[(''d1'', ?off)]" and e = "''a@x.com''"
        and pre = "[]" and i = "''d1''" and d = ?off and post = "[]", THEN conjunct2]
    unsubscribeByEmail_cases[where w = ?w and st = "[(''d1'', ?on)]" and e = "''a@x.com''"
        and pre = "[]" and i = "''d1''" and d = ?on and post = "[]", THEN conjunct2]
  show ?thesis by simp
qed

text \<open>
  C4. On a document that is already inactive, \<^verbatim>\<open>unsubscribeByToken\<close> with the right
  token reports success and \<^verbatim>\<open>unsubscribeByEmail\<close> reports failure, with the same
  message; neither changes the store.
\<close>

theorem unsubscribe_inactive_asymmetry:
  assumes "lookup_ok w" and "st = pre @ (i, d) # post"
    and "\<forall>(j, d') \<in> set pre. email d' \<noteq> e" and "email d = e" and "\<not> active d"
  shows "unsubscribeByToken H sec w st e (generateUnsubscribeToken H sec e) =
           (\<lparr>success = True, message = ''This email is already unsubscribed''\<rparr>, st)
       \<and> unsubscribeByEmail w st e =
           (\<lparr>success = False, message = ''This email is already unsubscribed''\<rparr>, st)"
proof -
  from assms(1-4) have found: "getSubscriberByEmail (lookup_ok w) st e = Some (i, d)"
    by (simp add: getSubscriberByEmail_first)
  from unsubscribeByToken_inactive[OF found assms(5)] unsubscribeByEmail_inactive[OF found assms(5)]
  show ?thesis by simp
qed

theorem unsubscribe_inactive_asymmetry_witness:
  "unsubscribeByToken id (Some ''k'') \<lparr>now = 5, auto_id = ''d2'', lookup_ok = True, write_ok = True\<rparr>
       [(''d1'', \<lparr>email = ''a@x.com'', subscribedAt = 1, active = False,
                 unsubscribeToken = ''old'', source = None,
                 subscribed = None, unsubscribedAt = Some 2\<rparr>)] ''a@x.com'' ''a@x.comk''
     = (\<lparr>success = True, message = ''This email is already unsubscribed''\<rparr>,
        [(''d1'', \<lparr>email = ''a@x.com'', subscribedAt = 1, active = False,
                 unsubscribeToken = ''old'', source = None,
                 subscribed = None, unsubscribedAt = Some 2\<rparr>)])
   \<and> unsubscribeByEmail \<lparr>now = 5, auto_id = ''d2'', lookup_ok = True, write_ok = True\<rparr>
       [(''d1'', \<lparr>email = ''a@x.com'', subscribedAt = 1, active = False,
                 unsubscribeToken = ''old'', source = None,
                 subscribed = None, unsubscribedAt = Some 2\<rparr>)] ''a@x.com''
     = (\<lparr>success = False, message = ''This email is already unsubscribed''\<rparr>,
        [(''d1'', \<lparr>email = ''a@x.com'', subscribedAt = 1, active = False,
                 unsubscribeToken = ''old'', source = None,
                 subscribed = None, unsubscribedAt = Some 2\<rparr>)])"
proof -
  let ?w = "\<lparr>now = 5, auto_id = ''d2'', lookup_ok = True, write_ok = True\<rparr>"
  let ?off = "\<lparr>email = ''a@x.com'', subscribedAt = 1, active = False,
                 unsubscribeToken = ''old'', source = None,
                 subscribed = None, unsubscribedAt = Some 2\<rparr>"
  have tok: "generateUnsubscribeToken id (Some ''k'') ''a@x.com'' = ''a@x.comk''"
    by (simp add: generateUnsubscribeToken_def)
  from unsubscribe_inactive_asymmetry[where w = ?w and st = "[(''d1'', ?off)]" and pre = "[]"
        and i = "''d1''" and d = ?off and post = "[]" and e = "''a@x.com''" and H = id
        and sec = "Some ''k''"]
  show ?thesis by (simp add: tok)
qed

section \<open>The token generator\<close>

text \<open>
  C7, as the code has it. Each generator is a function of the email and of the
  environment's secret alone. The web library returns the digest of the email followed
  by the secret, with \<^verbatim>\<open>development-secret-key\<close> in place of a secret that is unset or
  empty; the automation script has no default and returns the digest of the email
  followed by the secret as it is, the text \<^verbatim>\<open>undefined\<close> when it is unset. With a
  non-empty secret configured both return the digest of the email followed by that
  secret; with the secret unset or empty they digest different strings, so for a digest
  without collisions the two tokens are equal exactly when a non-empty secret is
  configured.
\<close>

theorem generateUnsubscribeToken_contract:
  "generateUnsubscribeToken H sec e =
     H (e @ (if falsy sec then ''development-secret-key'' else the sec))
   \<and> generateUnsubscribeToken_automation H sec e =
     H (e @ (case sec of None \<Rightarrow> ''undefined'' | Some s \<Rightarrow> s))
   \<and> (\<not> falsy sec \<longrightarrow>
        generateUnsubscribeToken H sec e = H (e @ the sec)
        \<and> generateUnsubscribeToken_automation H sec e = H (e @ the sec))
   \<and> (inj H \<longrightarrow>
        (generateUnsubscribeToken H sec e = generateUnsubscribeToken_automation H sec e
           \<longleftrightarrow> \<not> falsy sec))"
  by (cases sec)
     (auto simp: generateUnsubscribeToken_def generateUnsubscribeToken_automation_def falsy_def
           dest: injD)

theorem generateUnsubscribeToken_contract_witness:
  "\<not> falsy (Some ''s3cret'') \<and> inj (id :: string \<Rightarrow> string)
   \<and> generateUnsubscribeToken id (Some ''s3cret'') ''a@x.com'' = ''a@x.coms3cret''
   \<and> generateUnsubscribeToken_automation id (Some ''s3cret'') ''a@x.com'' = ''a@x.coms3cret''
   \<and> generateUnsubscribeToken id None ''a@x.com'' = ''a@x.comdevelopment-secret-key''
   \<and> generateUnsubscribeToken_automation id None ''a@x.com'' = ''a@x.comundefined''"
  using generateUnsubscribeToken_contract[of id "Some ''s3cret''" "''a@x.com''"]
    generateUnsubscribeToken_contract[of id None "''a@x.com''"]
  by (simp add: falsy_def)

text \<open>
  C7 as stated fails: with the secret unset, and with the empty secret, the two
  generators digest different strings. The digest is the identity here, which shows the
  strings themselves.
\<close>

theorem generateUnsubscribeToken_unset_secret_counterexample:
  "generateUnsubscribeToken id None ''a@x.com''
     \<noteq> generateUnsubscribeToken_automation id None ''a@x.com''
   \<and> generateUnsubscribeToken id (Some []) ''a@x.com''
     \<noteq> generateUnsubscribeToken_automation id (Some []) ''a@x.com''"
  by (simp add: generateUnsubscribeToken_def generateUnsubscribeToken_automation_def)

section \<open>The stored token is not consulted\<close>

lemma token_change_iff:
  "d' = d\<lparr>unsubscribeToken := unsubscribeToken d'\<rparr> \<longleftrightarrow> (\<exists>tok. d' = d\<lparr>unsubscribeToken := tok\<rparr>)"
proof
  assume "d' = d\<lparr>unsubscribeToken := unsubscribeToken d'\<rparr>"
  then show "\<exists>tok. d' = d\<lparr>unsubscribeToken := tok\<rparr>" by blast
next
  assume "\<exists>tok. d' = d\<lparr>unsubscribeToken := tok\<rparr>"
  then obtain tok where "d' = d\<lparr>unsubscribeToken := tok\<rparr>" by blast
  then show "d' = d\<lparr>unsubscribeToken := unsubscribeToken d'\<rparr>" by simp
qed

lemma differ_only_in_token_Nil [simp]: "differ_only_in_token [] []"
  by (simp add: differ_only_in_token_def)

lemma differ_only_in_token_Cons:
  "differ_only_in_token (p # st) (q # st') \<longleftrightarrow>
     fst q = fst p \<and> (\<exists>tok. snd q = (snd p)\<lparr>unsubscribeToken := tok\<rparr>) \<and> differ_only_in_token st st'"
  by (cases p; cases q) (simp add: differ_only_in_token_def token_change_iff)

lemma differ_only_in_token_induct [consumes 1, case_names Nil Cons]:
  assumes "differ_only_in_token st st'"
    and "P [] []"
    and "\<And>i d tok st st'. differ_only_in_token st st' \<Longrightarrow> P st st'
           \<Longrightarrow> P ((i, d) # st) ((i, d\<lparr>unsubscribeToken := tok\<rparr>) # st')"
  shows "P st st'"
  using assms(1)
proof (induction st arbitrary: st')
  case Nil
  then show ?case using assms(2) by (simp add: differ_only_in_token_def)
next
  case (Cons p st)
  from Cons.prems obtain q st2 where st': "st' = q # st2"
    by (cases st') (simp_all add: differ_only_in_token_def)
  with Cons.prems obtain tok where q: "q = (fst p, (snd p)\<lparr>unsubscribeToken := tok\<rparr>)"
    and rest: "differ_only_in_token st st2"
    by (cases q) (auto simp: differ_only_in_token_Cons)
  from assms(3)[OF rest Cons.IH[OF rest], of "fst p" "snd p" tok] st' q show ?case by simp
qed

lemma differ_only_in_token_lookup:
  "differ_only_in_token st st' \<Longrightarrow>
     (case getSubscriberByEmail ok st e of
        None \<Rightarrow> getSubscriberByEmail ok st' e = None
      | Some (i, d) \<Rightarrow> (\<exists>tok. getSubscriberByEmail ok st' e = Some (i, d\<lparr>unsubscribeToken := tok\<rparr>)))"
  by (induction rule: differ_only_in_token_induct)
     (auto simp: getSubscriberByEmail_def getDocs_email_def split: list.splits option.splits)

lemma differ_only_in_token_keys:
  "differ_only_in_token st st' \<Longrightarrow> fst ` set st' = fst ` set st"
  by (induction rule: differ_only_in_token_induct) auto

lemma differ_only_in_token_deactivate:
  "differ_only_in_token st st' \<Longrightarrow>
     differ_only_in_token
       (update_fields i (\<lambda>d. d\<lparr>active := False, unsubscribedAt := Some n\<rparr>) st)
       (update_fields i (\<lambda>d. d\<lparr>active := False, unsubscribedAt := Some n\<rparr>) st')"
proof (induction rule: differ_only_in_token_induct)
  case Nil
  then show ?case by simp
next
  case (Cons j d tok st st')
  have "\<exists>tok'. d\<lparr>unsubscribeToken := tok, active := False, unsubscribedAt := Some n\<rparr>
      = d\<lparr>active := False, unsubscribedAt := Some n, unsubscribeToken := tok'\<rparr>"
    by (rule exI[of _ tok]) simp
  with Cons show ?case by (auto simp: differ_only_in_token_Cons)
qed

text \<open>
  C6. On two stores that differ only in stored \<^verbatim>\<open>unsubscribeToken\<close> values,
  \<^verbatim>\<open>unsubscribeByToken\<close> returns the same result, and the stores it leaves again differ
  only in those values.
\<close>

theorem unsubscribeByToken_ignores_stored_token:
  assumes "differ_only_in_token st st'"
  shows "fst (unsubscribeByToken H sec w st' e t) = fst (unsubscribeByToken H sec w st e t)
       \<and> differ_only_in_token (snd (unsubscribeByToken H sec w st e t))
                               (snd (unsubscribeByToken H sec w st' e t))"
proof (cases "t = generateUnsubscribeToken H sec e")
  case False
  with assms show ?thesis by (simp add: unsubscribeByToken_invalid)
next
  case valid: True
  show ?thesis
  proof (cases "getSubscriberByEmail (lookup_ok w) st e")
    case None
    with differ_only_in_token_lookup[OF assms, of "lookup_ok w" e]
    have "getSubscriberByEmail (lookup_ok w) st' e = None" by simp
    with None valid assms show ?thesis by (simp add: unsubscribeByToken_absent)
  next
    case (Some p)
    obtain i d where p: "p = (i, d)" by (cases p)
    with Some have found: "getSubscriberByEmail (lookup_ok w) st e = Some (i, d)" by simp
    with differ_only_in_token_lookup[OF assms, of "lookup_ok w" e]
    obtain tok where found': "getSubscriberByEmail (lookup_ok w) st' e = Some (i, d\<lparr>unsubscribeToken := tok\<rparr>)"
      by auto
    show ?thesis
    proof (cases "active d")
      case False
      with valid found found' assms show ?thesis
        by (simp add: unsubscribeByToken_inactive)
    next
      case True
      from found have "i \<in> fst ` set st" by (rule getSubscriberByEmail_key)
      moreover from found' have "i \<in> fst ` set st'" by (rule getSubscriberByEmail_key)
      moreover note differ_only_in_token_deactivate[OF assms, of i "now w"]
      ultimately show ?thesis using valid found found' True assms
        by (cases "write_ok w") (simp_all add: unsubscribeByToken_active updateDoc_def)
    qed
  qed
qed

theorem unsubscribeByToken_ignores_stored_token_witness:
  "differ_only_in_token
     [(''d1'', \<lparr>email = ''a@x.com'', subscribedAt = 1, active = True,
               unsubscribeToken = ''a@x.comk'', source = None,
               subscribed = None, unsubscribedAt = None\<rparr>)]
     [(''d1'', \<lparr>email = ''a@x.com'', subscribedAt = 1, active = True,
               unsubscribeToken = ''forged'', source = None,
               subscribed = None, unsubscribedAt = None\<rparr>)]
   \<and> fst (unsubscribeByToken id (Some ''k'')
            \<lparr>now = 5, auto_id = ''d2'', lookup_ok = True, write_ok = True\<rparr>
            [(''d1'', \<lparr>email = ''a@x.com'', subscribedAt = 1, active = True,
                      unsubscribeToken = ''forged'', source = None,
                      subscribed = None, unsubscribedAt = None\<rparr>)] ''a@x.com'' ''forged'')
     = \<lparr>success = False, message = ''Invalid unsubscribe token''\<rparr>"
proof -
  let ?w = "\<lparr>now = 5, auto_id = ''d2'', lookup_ok = True, write_ok = True\<rparr>"
  let ?st = "[(''d1'', \<lparr>email = ''a@x.com'', subscribedAt = 1, active = True,
               unsubscribeToken = ''a@x.comk'', source = None,
               subscribed = None, unsubscribedAt = None\<rparr>)]"
  let ?st' = "[(''d1'', \<lparr>email = ''a@x.com'', subscribedAt = 1, active = True,
               unsubscribeToken = ''forged'', source = None,
               subscribed = None, unsubscribedAt = None\<rparr>)]"
  have rel: "differ_only_in_token ?st ?st'"
    by (simp add: differ_only_in_token_def)
  have "fst (unsubscribeByToken id (Some ''k'') ?w ?st ''a@x.com'' ''forged'')
      = \<lparr>success = False, message = ''Invalid unsubscribe token''\<rparr>"
    by (simp add: unsubscribeByToken_def generateUnsubscribeToken_def)
  with rel unsubscribeByToken_ignores_stored_token[OF rel, of id "Some ''k''" ?w "''a@x.com''" "''forged''"]
  show ?thesis by simp
qed

section \<open>The timestamps of a document along a history\<close>

lemma update_fields_mem:
  "distinct (map fst st) \<Longrightarrow> (j, d') \<in> set (update_fields i f st)
     \<Longrightarrow> (if j = i then \<exists>d. (i, d) \<in> set st \<and> d' = f d else (j, d') \<in> set st)"
proof (induction st)
  case Nil
  then show ?case by simp
next
  case (Cons p st)
  obtain k d where p: "p = (k, d)" by (cases p)
  show ?case
  proof (cases "k = i")
    case True
    with Cons.prems p show ?thesis by (auto simp: rev_image_eqI)
  next
    case False
    with Cons p show ?thesis by (auto split: if_splits)
  qed
qed

lemma addSubscriber_effect:
  assumes "addSubscriber H sec w st e src = ((r, sub), st')"
  shows "(sub = None \<and> st' = st)
       \<or> (\<exists>d. sub = Some (auto_id w, d) \<and> st' = st @ [(auto_id w, d)]
              \<and> active d \<and> subscribedAt d = now w \<and> unsubscribedAt d = None)
       \<or> (\<exists>i d. sub = Some (i, d) \<and>
              st' = update_fields i (\<lambda>d. d\<lparr>active := True, subscribed := Some True,
                       subscribedAt := now w,
                       unsubscribeToken := generateUnsubscribeToken H sec e\<rparr>) st)"
  using assms
  by (auto simp: addSubscriber_def addDoc_def updateDoc_def Let_def
           split: option.splits if_splits prod.splits)

lemma unsubscribeByEmail_effect:
  "snd (unsubscribeByEmail w st e) = st
   \<or> (\<exists>i. snd (unsubscribeByEmail w st e) =
            update_fields i (\<lambda>d. d\<lparr>active := False, unsubscribedAt := Some (now w)\<rparr>) st)"
  by (auto simp: unsubscribeByEmail_def updateDoc_def split: option.splits if_splits prod.splits)

lemma unsubscribeByToken_effect:
  "snd (unsubscribeByToken H sec w st e token) = st
   \<or> (\<exists>i. snd (unsubscribeByToken H sec w st e token) =
            update_fields i (\<lambda>d. d\<lparr>active := False, unsubscribedAt := Some (now w)\<rparr>) st)"
  by (auto simp: unsubscribeByToken_def updateDoc_def Let_def split: option.splits if_splits prod.splits)

lemma subscriber_invar_later:
  "subscriber_invar t a d \<Longrightarrow> t \<le> t' \<Longrightarrow> subscriber_invar t' a d"
  by (auto simp: subscriber_invar_def split: option.splits if_splits)

lemma subscriber_invar_deactivate:
  "subscriber_invar t a d \<Longrightarrow> t \<le> n
     \<Longrightarrow> subscriber_invar n a (d\<lparr>active := False, unsubscribedAt := Some n\<rparr>)"
  by (auto simp: subscriber_invar_def split: option.splits if_splits)

lemma subscriber_invar_activate:
  "subscriber_invar t a d \<Longrightarrow> t \<le> n
     \<Longrightarrow> subscriber_invar n (Some n)
           (d\<lparr>active := True, subscribed := Some True, subscribedAt := n, unsubscribeToken := tok\<rparr>)"
  by (auto simp: subscriber_invar_def split: option.splits if_splits)

lemma history_invar_unchanged:
  "history_invar (t, a, st) \<Longrightarrow> t \<le> n \<Longrightarrow> history_invar (n, a, st)"
  by (auto simp: list_all_iff intro: subscriber_invar_later)

lemma history_invar_deactivate:
  assumes "history_invar (t, a, st)" and "t \<le> n"
  shows "history_invar (n, a, update_fields i (\<lambda>d. d\<lparr>active := False, unsubscribedAt := Some n\<rparr>) st)"
proof -
  let ?f = "\<lambda>d. d\<lparr>active := False, unsubscribedAt := Some n\<rparr>"
  from assms(1) have dist: "distinct (map fst st)"
    and inv: "\<And>j d. (j, d) \<in> set st \<Longrightarrow> subscriber_invar t (a j) d"
    by (auto simp: list_all_iff)
  have "subscriber_invar n (a j) d'" if "(j, d') \<in> set (update_fields i ?f st)" for j d'
  proof (cases "j = i")
    case True
    with update_fields_mem[OF dist that] obtain d where "(i, d) \<in> set st" and "d' = ?f d"
      by auto
    with inv[of i d] assms(2) True show ?thesis by (simp add: subscriber_invar_deactivate)
  next
    case False
    with update_fields_mem[OF dist that] have "(j, d') \<in> set st" by simp
    from inv[OF this] assms(2) show ?thesis by (rule subscriber_invar_later)
  qed
  with dist show ?thesis by (auto simp: list_all_iff update_fields_keys)
qed

lemma history_invar_reactivate:
  assumes "history_invar (t, a, st)" and "t \<le> n"
  shows "history_invar (n, a(i \<mapsto> n),
           update_fields i (\<lambda>d. d\<lparr>active := True, subscribed := Some True,
                       subscribedAt := n, unsubscribeToken := tok\<rparr>) st)"
proof -
  let ?f = "\<lambda>d. d\<lparr>active := True, subscribed := Some True, subscribedAt := n, unsubscribeToken := tok\<rparr>"
  from assms(1) have dist: "distinct (map fst st)"
    and inv: "\<And>j d. (j, d) \<in> set st \<Longrightarrow> subscriber_invar t (a j) d"
    by (auto simp: list_all_iff)
  have "subscriber_invar n ((a(i \<mapsto> n)) j) d'" if "(j, d') \<in> set (update_fields i ?f st)" for j d'
  proof (cases "j = i")
    case True
    with update_fields_mem[OF dist that] obtain d where "(i, d) \<in> set st" and "d' = ?f d"
      by auto
    with inv[of i d] assms(2) True show ?thesis by (simp add: subscriber_invar_activate)
  next
    case False
    with update_fields_mem[OF dist that] have "(j, d') \<in> set st" by simp
    from inv[OF this] assms(2) False show ?thesis by (simp add: subscriber_invar_later)
  qed
  with dist show ?thesis by (auto simp: list_all_iff update_fields_keys)
qed

lemma history_invar_insert:
  assumes "history_invar (t, a, st)" and "t \<le> n" and "i \<notin> fst ` set st"
    and "active d" and "subscribedAt d = n" and "unsubscribedAt d = None"
  shows "history_invar (n, a(i \<mapsto> n), st @ [(i, d)])"
proof -
  from assms(1) have dist: "distinct (map fst st)"
    and inv: "\<And>j d. (j, d) \<in> set st \<Longrightarrow> subscriber_invar t (a j) d"
    by (auto simp: list_all_iff)
  have old: "subscriber_invar n ((a(i \<mapsto> n)) j) d'" if "(j, d') \<in> set st" for j d'
  proof -
    from that assms(3) have "j \<noteq> i" by force
    with inv[OF that] assms(2) show ?thesis by (simp add: subscriber_invar_later)
  qed
  have new: "subscriber_invar n ((a(i \<mapsto> n)) i) d"
    using assms(4-6) by (simp add: subscriber_invar_def)
  from dist assms(3) old new show ?thesis by (auto simp: list_all_iff)
qed

lemma step_invar:
  assumes "history_invar h" and "admissible h c"
  shows "history_invar (step H sec h c)"
proof -
  obtain t a st where h: "h = (t, a, st)" by (cases h)
  show ?thesis
  proof (cases c)
    case (AddSubscriber w e src)
    obtain r sub st' where res: "addSubscriber H sec w st e src = ((r, sub), st')"
      by (metis prod.exhaust)
    from assms(2) h AddSubscriber have le: "t \<le> now w" and fresh: "auto_id w \<notin> fst ` set st"
      by simp_all
    from addSubscriber_effect[OF res] show ?thesis
    proof (elim disjE exE conjE)
      assume "sub = None" and "st' = st"
      with res h AddSubscriber assms(1) le show ?thesis
        by (simp add: history_invar_unchanged del: history_invar.simps)
    next
      fix d
      assume "sub = Some (auto_id w, d)" and "st' = st @ [(auto_id w, d)]"
        and "active d" and "subscribedAt d = now w" and "unsubscribedAt d = None"
      with res h AddSubscriber assms(1) le fresh show ?thesis
        by (simp add: history_invar_insert del: history_invar.simps)
    next
      fix i d
      assume "sub = Some (i, d)"
        and "st' = update_fields i (\<lambda>d. d\<lparr>active := True, subscribed := Some True,
                       subscribedAt := now w,
                       unsubscribeToken := generateUnsubscribeToken H sec e\<rparr>) st"
      with res h AddSubscriber assms(1) le show ?thesis
        by (simp add: history_invar_reactivate del: history_invar.simps)
    qed
  next
    case (UnsubscribeByEmail w e)
    from assms(2) h UnsubscribeByEmail have le: "t \<le> now w" by simp
    from unsubscribeByEmail_effect[of w st e] h UnsubscribeByEmail assms(1) le show ?thesis
      by (auto simp: history_invar_unchanged history_invar_deactivate simp del: history_invar.simps)
  next
    case (UnsubscribeByToken w e token)
    from assms(2) h UnsubscribeByToken have le: "t \<le> now w" by simp
    from unsubscribeByToken_effect[of H sec w st e token] h UnsubscribeByToken assms(1) le show ?thesis
      by (auto simp: history_invar_unchanged history_invar_deactivate simp del: history_invar.simps)
  qed
qed

lemma run_invar:
  "history_invar h \<Longrightarrow> run H sec h cs = Some h' \<Longrightarrow> history_invar h'"
proof (induction cs arbitrary: h)
  case Nil
  then show ?case by simp
next
  case (Cons c cs)
  from Cons.prems(2) have adm: "admissible h c" and rest: "run H sec (step H sec h c) cs = Some h'"
    by (simp_all split: if_splits)
  from Cons.IH[OF step_invar[OF Cons.prems(1) adm] rest] show ?case .
qed

text \<open>
  C8. Along every admissible history from the empty collection, with the clock never
  going backwards: an active document has the \<^verbatim>\<open>subscribedAt\<close> of its last transition
  to active (and no later \<^verbatim>\<open>unsubscribedAt\<close>), and an inactive document carries an
  \<^verbatim>\<open>unsubscribedAt\<close> at or after its \<^verbatim>\<open>subscribedAt\<close>. Store calls may fail at any
  point of the history.
\<close>

theorem subscriber_timestamps_invariant:
  assumes "run H sec (0, Map.empty, []) cs = Some (t, activated, st)" and "(i, d) \<in> set st"
  shows "(active d \<longrightarrow> activated i = Some (subscribedAt d)
                    \<and> (\<forall>u. unsubscribedAt d = Some u \<longrightarrow> u \<le> subscribedAt d))
       \<and> (\<not> active d \<longrightarrow> (\<exists>u. unsubscribedAt d = Some u \<and> subscribedAt d \<le> u))"
proof -
  have "history_invar (0, Map.empty, [])" by simp
  from run_invar[OF this assms(1)] assms(2) have "subscriber_invar t (activated i) d"
    by (auto simp: list_all_iff)
  then show ?thesis by (auto simp: subscriber_invar_def split: option.splits if_splits)
qed

theorem subscriber_timestamps_invariant_witness:
  "run id (Some ''k'') (0, Map.empty, [])
     [AddSubscriber \<lparr>now = 3, auto_id = ''d1'', lookup_ok = True, write_ok = True\<rparr> ''a@x.com'' ''website'',
      UnsubscribeByEmail \<lparr>now = 7, auto_id = ''d2'', lookup_ok = True, write_ok = True\<rparr> ''a@x.com'',
      AddSubscriber \<lparr>now = 9, auto_id = ''d3'', lookup_ok = True, write_ok = True\<rparr> ''a@x.com'' ''website'']
   = Some (9, [''d1'' \<mapsto> 9],
       [(''d1'', \<lparr>email = ''a@x.com'', subscribedAt = 9, active = True,
                 unsubscribeToken = ''a@x.comk'', source = Some ''website'',
                 subscribed = Some True, unsubscribedAt = Some 7\<rparr>)])
   \<and> [''d1'' \<mapsto> 9] ''d1'' = Some (9::nat) \<and> (7::nat) \<le> 9"
proof -
  let ?cs = "[AddSubscriber \<lparr>now = 3, auto_id = ''d1'', lookup_ok = True, write_ok = True\<rparr> ''a@x.com'' ''website'',
      UnsubscribeByEmail \<lparr>now = 7, auto_id = ''d2'', lookup_ok = True, write_ok = True\<rparr> ''a@x.com'',
      AddSubscriber \<lparr>now = 9, auto_id = ''d3'', lookup_ok = True, write_ok = True\<rparr> ''a@x.com'' ''website'']"
  let ?d = "\<lparr>email = ''a@x.com'', subscribedAt = 9, active = True,
                 unsubscribeToken = ''a@x.comk'', source = Some ''website'',
                 subscribed = Some True, unsubscribedAt = Some 7\<rparr>"
  have r: "run id (Some ''k'') (0, Map.empty, []) ?cs = Some (9, [''d1'' \<mapsto> 9], [(''d1'', ?d)])"
    by (simp add: addSubscriber_def unsubscribeByEmail_def getSubscriberByEmail_def
          getDocs_email_def addDoc_def updateDoc_def generateUnsubscribeToken_def Let_def)
  have m: "(''d1'', ?d) \<in> set [(''d1'', ?d)]" by simp
  from subscriber_timestamps_invariant[OF r m] r show ?thesis by simp
qed

section \<open>Store failures at the HTTP boundary\<close>

lemma message_or_error_message [simp]:
  "message_or_error \<lparr>status = n, body = JObj [(''message'', JStr m)]\<rparr> \<longleftrightarrow> n = 200"
  by (simp add: message_or_error_def)

lemma message_or_error_error [simp]:
  "message_or_error \<lparr>status = n, body = JObj [(''error'', JStr m)]\<rparr> \<longleftrightarrow> 400 \<le> n"
  by (simp add: message_or_error_def)






text \<open>
  The test of the handlers is the shape the regular expression describes: three
  non-empty parts without at sign, separated by the at sign and a dot, and no white
  space anywhere.
\<close>

lemma dot_inside_iff:
  "CHR ''.'' \<in> set (butlast (tl domain)) \<longleftrightarrow>
     (\<exists>b c. domain = b @ ''.'' @ c \<and> b \<noteq> [] \<and> c \<noteq> [])"
proof
  assume "CHR ''.'' \<in> set (butlast (tl domain))"
  then obtain r1 r2 where r: "butlast (tl domain) = r1 @ CHR ''.'' # r2"
    by (auto simp: in_set_conv_decomp)
  then have ne: "tl domain \<noteq> []" by auto
  then obtain x where d: "domain = x # tl domain" by (cases domain) auto
  from ne have "tl domain = butlast (tl domain) @ [last (tl domain)]" by simp
  with r d have "domain = (x # r1) @ ''.'' @ (r2 @ [last (tl domain)])" by simp
  then show "\<exists>b c. domain = b @ ''.'' @ c \<and> b \<noteq> [] \<and> c \<noteq> []" by blast
next
  assume "\<exists>b c. domain = b @ ''.'' @ c \<and> b \<noteq> [] \<and> c \<noteq> []"
  then obtain b c where d: "domain = b @ ''.'' @ c" and "b \<noteq> []" and "c \<noteq> []" by blast
  then obtain x b' where "b = x # b'" by (cases b) auto
  with d \<open>c \<noteq> []\<close> show "CHR ''.'' \<in> set (butlast (tl domain))"
    by (simp add: butlast_append)
qed

lemma takeWhile_upto: "x \<notin> set a \<Longrightarrow> takeWhile (\<lambda>c. c \<noteq> x) (a @ x # r) = a"
  by (induction a) auto

lemma dropWhile_upto: "x \<notin> set a \<Longrightarrow> dropWhile (\<lambda>c. c \<noteq> x) (a @ x # r) = x # r"
  by (induction a) auto

lemma emailRegex_test_shape:
  "emailRegex_test s \<longleftrightarrow>
     \<not> has_whitespace s \<and>
     (\<exists>a b c. s = a @ ''@'' @ b @ ''.'' @ c \<and> a \<noteq> [] \<and> b \<noteq> [] \<and> c \<noteq> []
        \<and> CHR ''@'' \<notin> set a \<and> CHR ''@'' \<notin> set b \<and> CHR ''@'' \<notin> set c)"
proof
  assume t: "emailRegex_test s"
  let ?a = "takeWhile (\<lambda>c. c \<noteq> CHR ''@'') s"
  from t obtain x domain where dw: "dropWhile (\<lambda>c. c \<noteq> CHR ''@'') s = x # domain"
    and ne: "?a \<noteq> []" and noat: "CHR ''@'' \<notin> set domain"
    and dot: "CHR ''.'' \<in> set (butlast (tl domain))" and ws: "\<not> has_whitespace s"
    by (auto simp: emailRegex_test_def split: list.splits)
  from dw have "x = CHR ''@''" using hd_dropWhile[of "\<lambda>c. c \<noteq> CHR ''@''" s] by auto
  with dw have s: "s = ?a @ ''@'' @ domain"
    using takeWhile_dropWhile_id[of "\<lambda>c. c \<noteq> CHR ''@''" s] by simp
  from dot obtain b c where d: "domain = b @ ''.'' @ c" and bc: "b \<noteq> []" "c \<noteq> []"
    by (auto simp: dot_inside_iff)
  have "CHR ''@'' \<notin> set ?a" by (auto dest: set_takeWhileD)
  with s d bc ne noat ws show "\<not> has_whitespace s \<and>
     (\<exists>a b c. s = a @ ''@'' @ b @ ''.'' @ c \<and> a \<noteq> [] \<and> b \<noteq> [] \<and> c \<noteq> []
        \<and> CHR ''@'' \<notin> set a \<and> CHR ''@'' \<notin> set b \<and> CHR ''@'' \<notin> set c)"
    by (intro conjI exI[of _ ?a] exI[of _ b] exI[of _ c]) auto
next
  assume "\<not> has_whitespace s \<and>
     (\<exists>a b c. s = a @ ''@'' @ b @ ''.'' @ c \<and> a \<noteq> [] \<and> b \<noteq> [] \<and> c \<noteq> []
        \<and> CHR ''@'' \<notin> set a \<and> CHR ''@'' \<notin> set b \<and> CHR ''@'' \<notin> set c)"
  then obtain a b c where ws: "\<not> has_whitespace s" and s: "s = a @ ''@'' @ b @ ''.'' @ c"
    and ne: "a \<noteq> []" "b \<noteq> []" "c \<noteq> []"
    and noat: "CHR ''@'' \<notin> set a" "CHR ''@'' \<notin> set b" "CHR ''@'' \<notin> set c"
    by blast
  from noat(1) have tw: "takeWhile (\<lambda>c. c \<noteq> CHR ''@'') s = a"
    and dw: "dropWhile (\<lambda>c. c \<noteq> CHR ''@'') s = CHR ''@'' # (b @ ''.'' @ c)"
    unfolding s by (simp_all add: takeWhile_upto dropWhile_upto)
  have dot: "CHR ''.'' \<in> set (butlast (tl (b @ ''.'' @ c)))"
    using ne by (subst dot_inside_iff) blast
  from ws tw dw ne noat dot show "emailRegex_test s"
    by (simp add: emailRegex_test_def)
qed












section \<open>The status codes of the token path\<close>

text \<open>
  C5. A request that carries both parameters and a wrong token: the service reports
  \<^verbatim>\<open>Invalid unsubscribe token\<close>, the handler looks for the text \<^verbatim>\<open>Invalid token\<close> in
  that message, does not find it, and answers 400 where 403 is meant.
\<close>

theorem GET_unsubscribe_invalid_token_status:
  assumes "t \<noteq> generateUnsubscribeToken H sec e" and "t \<noteq> []" and "e \<noteq> []"
  shows "GET_unsubscribe H sec w st (Some t) (Some e) =
     (\<lparr>status = 400, body = JObj [(''error'', JStr ''Invalid unsubscribe token'')]\<rparr>, st)"
proof -
  have inc: "\<not> includes_str ''Invalid unsubscribe token'' ''Invalid token''"
    "\<not> includes_str ''Invalid unsubscribe token'' ''not found''"
    by simp_all
  from unsubscribeByToken_invalid[OF assms(1)] assms(2,3) inc show ?thesis
    by (simp add: GET_unsubscribe_def falsy_def)
qed

theorem GET_unsubscribe_invalid_token_status_witness:
  "GET_unsubscribe id (Some ''s3cret'') \<lparr>now = 5, auto_id = ''d9'', lookup_ok = True, write_ok = True\<rparr>
     [] (Some ''wrong'') (Some ''a@x.com'')
   = (\<lparr>status = 400, body = JObj [(''error'', JStr ''Invalid unsubscribe token'')]\<rparr>, [])"
proof -
  have "''wrong'' \<noteq> generateUnsubscribeToken id (Some ''s3cret'') ''a@x.com''"
    by (simp add: generateUnsubscribeToken_def)
  with GET_unsubscribe_invalid_token_status[where t = "''wrong''" and H = id
      and sec = "Some ''s3cret''" and e = "''a@x.com''" and st = "[]"
      and w = "\<lparr>now = 5, auto_id = ''d9'', lookup_ok = True, write_ok = True\<rparr>"]
  show ?thesis by simp
qed

end
